theory Spec2Isabelle
  imports Complex_Main "HOL-Library.Multiset"
begin

section \<open>The index model of \<open>src/index_model/index.py\<close>\<close>

text \<open>
  The class \<open>IndexModel\<close> holds a pandas data frame read from a CSV file and computes an
  index level row by row. The embedding below follows the methods of the class in the order
  of the source.

  Conventions of the embedding:
  \<^item> a Python exception is a value \<open>Inl e\<close> of the sum type \<open>error + 'a\<close>;
  \<^item> a Python \<open>float\<close> is a \<open>real\<close>: arithmetic is exact, the rounding, overflow,
    underflow and NaN of IEEE-754 doubles are outside the model;
  \<^item> the text of a \<open>Date\<close> cell is held as the triple \<open>(year, month, day)\<close> that
    \<open>split_date\<close> reads from it; the slicing of the text and the \<open>int\<close> conversions are
    outside the model;
  \<^item> the functions of Python's \<open>calendar\<close> and \<open>datetime\<close> modules are written out
    with the arithmetic of their library sources.
\<close>

subsection \<open>Exceptions\<close>

datatype error = ValueError | IndexError | ZeroDivisionError

definition ebind :: "error + 'a \<Rightarrow> ('a \<Rightarrow> error + 'b) \<Rightarrow> error + 'b" where
  "ebind m f = (case m of Inl e \<Rightarrow> Inl e | Inr x \<Rightarrow> f x)"

subsection \<open>Ranking: \<open>top_n\<close> and \<open>top3_list_index\<close>\<close>

text \<open>
  Python's slice \<open>vals[:n]\<close>: the first \<open>n\<close> elements for \<open>n \<ge> 0\<close>, all but the last
  \<open>-n\<close> elements for a negative \<open>n\<close>.
\<close>

definition slice_to :: "'a list \<Rightarrow> int \<Rightarrow> 'a list" where
  "slice_to vals n =
     (if 0 \<le> n then take (nat n) vals else take (length vals - nat (- n)) vals)"

text \<open>
  \<open>vals.sort(reverse=True)\<close> puts the list in descending order. The sort is stable, and
  elements that compare equal are equal values here, so the result is the ascending sort
  reversed.
\<close>

definition sort_reverse :: "'a::linorder list \<Rightarrow> 'a list" where
  "sort_reverse vals = rev (sort vals)"

text \<open>The value \<open>top_n\<close> returns: the slice of the sorted copy.\<close>

definition top_n :: "'a::linorder list \<Rightarrow> int \<Rightarrow> 'a list" where
  "top_n values n = slice_to (sort_reverse values) n"

text \<open>
  \<open>top_n\<close> with its effects on the heap of list objects. A store is the sequence of the
  list objects allocated so far and an address is a position in it. \<open>values.copy()\<close>
  and the slice \<open>vals[:n]\<close> each allocate a new list, \<open>vals.sort(reverse=True)\<close>
  overwrites the list at the address it is called on, and \<open>del vals\<close> only unbinds the
  local name.
\<close>

type_synonym 'a store = "'a list list"

definition list_copy :: "'a store \<Rightarrow> nat \<Rightarrow> 'a store \<times> nat" where
  "list_copy h a = (h @ [h ! a], length h)"

definition list_sort_reverse :: "'a::linorder store \<Rightarrow> nat \<Rightarrow> 'a store" where
  "list_sort_reverse h a = h[a := sort_reverse (h ! a)]"

definition list_slice_to :: "'a store \<Rightarrow> nat \<Rightarrow> int \<Rightarrow> 'a store \<times> nat" where
  "list_slice_to h a n = (h @ [slice_to (h ! a) n], length h)"

definition top_n_store :: "'a::linorder store \<Rightarrow> nat \<Rightarrow> int \<Rightarrow> 'a store \<times> nat" where
  "top_n_store h values n =
     (let (h1, vals) = list_copy h values;
          h2 = list_sort_reverse h1 vals;
          (h3, x) = list_slice_to h2 vals n
      in (h3, x))"

text \<open>\<open>tops[i]\<close>: an index past the end raises \<open>IndexError\<close>.\<close>

definition list_get :: "'a list \<Rightarrow> nat \<Rightarrow> error + 'a" where
  "list_get xs i = (if i < length xs then Inr (xs ! i) else Inl IndexError)"

text \<open>\<open>vals.index(v)\<close>: the first position holding \<open>v\<close>, \<open>ValueError\<close> when there is none.\<close>

fun list_index :: "'a list \<Rightarrow> 'a \<Rightarrow> error + nat" where
  "list_index [] v = Inl ValueError"
| "list_index (x # xs) v =
     (if x = v then Inr 0 else ebind (list_index xs v) (\<lambda>i. Inr (Suc i)))"

definition top3_list_index :: "'a::linorder list \<Rightarrow> error + (nat \<times> nat \<times> nat)" where
  "top3_list_index vals =
     (let tops = top_n vals 3 in
      ebind (list_get tops 0) (\<lambda>t0. ebind (list_index vals t0) (\<lambda>x.
      ebind (list_get tops 1) (\<lambda>t1. ebind (list_index vals t1) (\<lambda>y.
      ebind (list_get tops 2) (\<lambda>t2. ebind (list_index vals t2) (\<lambda>z.
      Inr (x, y, z))))))))"

subsection \<open>Rows and the data frame\<close>

text \<open>
  A row of the frame: the \<open>Date\<close> column at position 0 and the numeric columns at
  positions 1, 2, ... in \<open>cells\<close>. The frame is its header and its rows; \<open>columns\<close>
  names the numeric columns, so the whole header is \<open>Date\<close> followed by \<open>columns\<close>,
  and the index label of a row is its position (the range index of \<open>read_csv\<close>).
\<close>

type_synonym date = "int \<times> int \<times> int"

record row =
  Date :: date
  cells :: "real list"

record frame =
  columns :: "string list"
  rows :: "row list"

text \<open>
  \<open>row[k]\<close> for an integer \<open>k\<close> is the value at position \<open>k\<close>: the text of the date at
  position 0, a number elsewhere, \<open>IndexError\<close> past the end. \<open>float(x)\<close> is the
  number itself and raises \<open>ValueError\<close> on the text of a date.
\<close>

datatype cell = Text date | Number real

definition row_get :: "row \<Rightarrow> nat \<Rightarrow> error + cell" where
  "row_get r k =
     (if k = 0 then Inr (Text (Date r))
      else ebind (list_get (cells r) (k - 1)) (\<lambda>v. Inr (Number v)))"

definition py_float :: "cell \<Rightarrow> error + real" where
  "py_float c = (case c of Text t \<Rightarrow> Inl ValueError | Number v \<Rightarrow> Inr v)"

text \<open>The tuple \<open>(row[a], row[b], row[c])\<close>.\<close>

definition row_prices :: "row \<Rightarrow> nat \<times> nat \<times> nat \<Rightarrow> error + (cell \<times> cell \<times> cell)" where
  "row_prices r sel =
     (case sel of (a, b, c) \<Rightarrow>
        ebind (row_get r a) (\<lambda>x. ebind (row_get r b) (\<lambda>y. ebind (row_get r c) (\<lambda>z.
        Inr (x, y, z)))))"

text \<open>\<open>list(row[1:12])\<close>: the values at positions 1 to 11, fewer when the row is shorter.\<close>

definition price_list :: "row \<Rightarrow> real list" where
  "price_list r = take 11 (cells r)"

subsection \<open>Valuation\<close>

text \<open>\<open>calc_portfolio_value\<close>: the weights 0.5, 0.25 and 0.25 on the three prices.\<close>

definition calc_portfolio_value :: "cell \<times> cell \<times> cell \<Rightarrow> error + real" where
  "calc_portfolio_value prices =
     (case prices of (x, y, z) \<Rightarrow>
        ebind (py_float x) (\<lambda>fx. ebind (py_float y) (\<lambda>fy. ebind (py_float z) (\<lambda>fz.
        Inr (0.5 * fx + 0.25 * fy + 0.25 * fz)))))"

text \<open>Division of Python floats raises \<open>ZeroDivisionError\<close> on a zero divisor.\<close>

definition fdiv :: "real \<Rightarrow> real \<Rightarrow> error + real" where
  "fdiv a b = (if b = 0 then Inl ZeroDivisionError else Inr (a / b))"

subsection \<open>Calendar\<close>

text \<open>\<open>calendar.isleap\<close>, \<open>calendar.mdays\<close> and the day count of \<open>calendar.monthrange\<close>.\<close>

definition isleap :: "int \<Rightarrow> bool" where
  "isleap year \<longleftrightarrow> year mod 4 = 0 \<and> (year mod 100 \<noteq> 0 \<or> year mod 400 = 0)"

definition mdays :: "int list" where
  "mdays = [0, 31, 28, 31, 30, 31, 30, 31, 31, 30, 31, 30, 31]"

definition ndays :: "int \<Rightarrow> int \<Rightarrow> int" where
  "ndays year month = mdays ! nat month + (if month = 2 \<and> isleap year then 1 else 0)"

text \<open>
  \<open>datetime.date(year, month, day)\<close>: \<open>ValueError\<close> unless the year is in 1..9999, the
  month in 1..12 and the day in 1..the length of the month.
\<close>

definition dt_date :: "int \<Rightarrow> int \<Rightarrow> int \<Rightarrow> error + date" where
  "dt_date year month day =
     (if 1 \<le> year \<and> year \<le> 9999 \<and> 1 \<le> month \<and> month \<le> 12
         \<and> 1 \<le> day \<and> day \<le> ndays year month
      then Inr (year, month, day) else Inl ValueError)"

text \<open>
  \<open>date.toordinal()\<close> counts the days since 0001-01-01 as day 1, and \<open>date.weekday()\<close>
  is \<open>(toordinal() + 6) % 7\<close>, Monday being 0 and Sunday 6.
\<close>

definition days_before_year :: "int \<Rightarrow> int" where
  "days_before_year year =
     (let y = year - 1 in y * 365 + y div 4 - y div 100 + y div 400)"

definition days_before_month_tab :: "int list" where
  "days_before_month_tab = [- 1, 0, 31, 59, 90, 120, 151, 181, 212, 243, 273, 304, 334]"

definition days_before_month :: "int \<Rightarrow> int \<Rightarrow> int" where
  "days_before_month year month =
     days_before_month_tab ! nat month + (if 2 < month \<and> isleap year then 1 else 0)"

definition toordinal :: "date \<Rightarrow> int" where
  "toordinal d =
     (case d of (year, month, day) \<Rightarrow>
        days_before_year year + days_before_month year month + day)"

definition date_weekday :: "date \<Rightarrow> int" where
  "date_weekday d = (toordinal d + 6) mod 7"

text \<open>
  \<open>calendar.weekday(year, month, day)\<close>: a year outside 1..9999 is replaced by
  \<open>2000 + year % 400\<close>, then the weekday of the date is taken.
\<close>

definition calendar_weekday :: "int \<Rightarrow> int \<Rightarrow> int \<Rightarrow> error + int" where
  "calendar_weekday year month day =
     (let year' = (if 1 \<le> year \<and> year \<le> 9999 then year else 2000 + year mod 400)
      in ebind (dt_date year' month day) (\<lambda>d. Inr (date_weekday d)))"

text \<open>
  \<open>calendar.monthrange(year, month)\<close>: the weekday of the 1st and the number of days;
  \<open>IllegalMonthError\<close>, a \<open>ValueError\<close>, for a month outside 1..12.
\<close>

definition monthrange :: "int \<Rightarrow> int \<Rightarrow> error + (int \<times> int)" where
  "monthrange year month =
     (if \<not> (1 \<le> month \<and> month \<le> 12) then Inl ValueError
      else ebind (calendar_weekday year month 1) (\<lambda>day1. Inr (day1, ndays year month)))"

definition month_last_day :: "date \<Rightarrow> error + date" where
  "month_last_day dates =
     (case dates of (year, month, day) \<Rightarrow>
        ebind (monthrange year month) (\<lambda>(day1, last_day). dt_date year month last_day))"

definition last_working_day :: "date \<Rightarrow> error + date" where
  "last_working_day dates =
     ebind (month_last_day dates) (\<lambda>(ly, lm, ld).
     ebind (calendar_weekday ly lm ld) (\<lambda>day.
       let l_day = (if day = 5 then ld - 1 else if day = 6 then ld - 2 else ld)
       in dt_date ly lm l_day))"

definition first_working_day :: "date \<Rightarrow> error + date" where
  "first_working_day dates =
     (case dates of (year, month, day) \<Rightarrow>
        ebind (calendar_weekday year month 1) (\<lambda>f_day.
          let day' = (if f_day = 5 then 3 else if f_day = 6 then 2 else 1)
          in dt_date year month day'))"

subsection \<open>The index engine: \<open>calc_index_level\<close>\<close>

text \<open>
  The local variables of \<open>calc_index_level\<close>. \<open>old_tops\<close> is a list of three
  positions in the source, always built as \<open>[top_1, top_2, top_3]\<close>; it is held as a
  triple.
\<close>

record state =
  top_1 :: nat
  top_2 :: nat
  top_3 :: nat
  old_tops :: "nat \<times> nat \<times> nat"
  portfolio_value :: "real list"
  index_level :: "real list"
  divisor :: real
  old_portfolio_value :: real

definition init :: state where
  "init = \<lparr>top_1 = 1, top_2 = 1, top_3 = 1, old_tops = (1, 1, 1),
            portfolio_value = [], index_level = [], divisor = 1,
            old_portfolio_value = 100\<rparr>"

text \<open>The rebalancing branch: the body of \<open>if date == last_working_day\<close>.\<close>

definition rebalance :: "row \<Rightarrow> state \<Rightarrow> error + state" where
  "rebalance r s =
     ebind (top3_list_index (price_list r)) (\<lambda>(x, y, z).
       Inr (s\<lparr>old_tops := (top_1 s, top_2 s, top_3 s),
               top_1 := x + 1, top_2 := y + 1, top_3 := z + 1\<rparr>))"

text \<open>The divisor branch: the body of \<open>elif date == first_working_day\<close>.\<close>

definition update_divisor :: "nat \<Rightarrow> row \<Rightarrow> cell \<times> cell \<times> cell \<Rightarrow> state \<Rightarrow> error + state" where
  "update_divisor index r prices s =
     ebind (if 3 < index
            then ebind (row_prices r (old_tops s)) calc_portfolio_value
            else Inr (old_portfolio_value s)) (\<lambda>opv.
     ebind (calc_portfolio_value prices) (\<lambda>new_portfolio_value.
     ebind (fdiv new_portfolio_value opv) (\<lambda>q.
       Inr (s\<lparr>old_portfolio_value := opv, divisor := q * divisor s\<rparr>))))"

text \<open>One pass of the loop body, for the row \<open>r\<close> with index label \<open>index\<close>.\<close>

definition step :: "nat \<Rightarrow> row \<Rightarrow> state \<Rightarrow> error + state" where
  "step index r s =
     (case Date r of (year, month, day) \<Rightarrow>
      ebind (row_prices r (top_1 s, top_2 s, top_3 s)) (\<lambda>prices.
      ebind (calc_portfolio_value prices) (\<lambda>pv.
      let s1 = s\<lparr>portfolio_value := portfolio_value s @ [pv]\<rparr> in
      ebind (dt_date year month day) (\<lambda>today.
      ebind (last_working_day (Date r)) (\<lambda>lwd.
      ebind (if today = lwd then rebalance r s1
             else ebind (first_working_day (Date r)) (\<lambda>fwd.
                    if today = fwd then update_divisor index r prices s1
                    else Inr s1)) (\<lambda>s2.
      ebind (calc_portfolio_value prices) (\<lambda>pv'.
      ebind (fdiv pv' (divisor s2)) (\<lambda>il.
        Inr (s2\<lparr>index_level := index_level s2 @ [il]\<rparr>)))))))))"

text \<open>The loop \<open>for index, row in self.df.iterrows()\<close>, from index label \<open>index\<close> on.\<close>

fun iterrows :: "nat \<Rightarrow> row list \<Rightarrow> state \<Rightarrow> error + state" where
  "iterrows index [] s = Inr s"
| "iterrows index (r # rs) s = ebind (step index r s) (iterrows (Suc index) rs)"

text \<open>
  \<open>df[name] = values\<close>: the column of that name is overwritten, or a new last column is
  added when there is none; \<open>ValueError\<close> when the number of values is not the number
  of rows.
\<close>

definition set_column :: "frame \<Rightarrow> string \<Rightarrow> real list \<Rightarrow> error + frame" where
  "set_column df name vals =
     (if length vals \<noteq> length (rows df) then Inl ValueError
      else (case list_index (columns df) name of
              Inr k \<Rightarrow> Inr (df\<lparr>rows := map2 (\<lambda>r v. r\<lparr>cells := (cells r)[k := v]\<rparr>) (rows df) vals\<rparr>)
            | Inl e \<Rightarrow> Inr (df\<lparr>columns := columns df @ [name],
                              rows := map2 (\<lambda>r v. r\<lparr>cells := cells r @ [v]\<rparr>) (rows df) vals\<rparr>)))"

text \<open>
  \<open>calc_index_level\<close> changes \<open>self.df\<close> in place and returns nothing; here it returns
  the new frame.
\<close>

definition calc_index_level :: "frame \<Rightarrow> date \<Rightarrow> date \<Rightarrow> error + frame" where
  "calc_index_level df start_date end_date =
     ebind (iterrows 0 (rows df) init) (\<lambda>s.
     ebind (set_column df ''Index_Portfolio_Value'' (portfolio_value s)) (\<lambda>df1.
     set_column df1 ''Index_Level'' (index_level s)))"

subsection \<open>Export\<close>

text \<open>
  \<open>export_values\<close> writes \<open>self.df.iloc[2:, [0, 12]]\<close> to a file: the rows from position
  2 on, the columns at positions 0 and 12, \<open>IndexError\<close> when the frame has no column
  12. Here it returns the table it writes, the header and the rows.
\<close>

fun iloc_0_12 :: "row list \<Rightarrow> error + (date \<times> real) list" where
  "iloc_0_12 [] = Inr []"
| "iloc_0_12 (r # rs) =
     ebind (list_get (cells r) 11) (\<lambda>v.
     ebind (iloc_0_12 rs) (\<lambda>out. Inr ((Date r, v) # out)))"

definition export_values :: "frame \<Rightarrow> error + ((string \<times> string) \<times> (date \<times> real) list)" where
  "export_values df =
     ebind (list_get (columns df) 11) (\<lambda>name.
     ebind (iloc_0_12 (drop 2 (rows df))) (\<lambda>out.
     Inr ((''Date'', name), out)))"

subsection \<open>Days of the schedule\<close>

text \<open>
  A rebalance day is a row on which the test of the \<open>if\<close> branch holds: its date is the
  last working day of its month. A month-start day is a row whose date is the first
  working day of its month, and a divisor-update day is a row on which the \<open>elif\<close>
  branch is taken.
\<close>

definition today :: "row \<Rightarrow> error + date" where
  "today r = (case Date r of (year, month, day) \<Rightarrow> dt_date year month day)"

definition rebalance_day :: "row \<Rightarrow> bool" where
  "rebalance_day r =
     (case today r of Inl e \<Rightarrow> False | Inr d \<Rightarrow> last_working_day (Date r) = Inr d)"

definition month_start_day :: "row \<Rightarrow> bool" where
  "month_start_day r =
     (case today r of Inl e \<Rightarrow> False | Inr d \<Rightarrow> first_working_day (Date r) = Inr d)"

definition divisor_update_day :: "row \<Rightarrow> bool" where
  "divisor_update_day r \<longleftrightarrow> \<not> rebalance_day r \<and> month_start_day r"

text \<open>The value of a selection on a row: \<open>calc_portfolio_value((row[a], row[b], row[c]))\<close>.\<close>

definition value_at :: "row \<Rightarrow> nat \<times> nat \<times> nat \<Rightarrow> error + real" where
  "value_at r sel = ebind (row_prices r sel) calc_portfolio_value"

subsection \<open>Sample series\<close>

text \<open>
  Small series on which the properties below are evaluated. 31 January 2020 is a Friday
  and the last working day of its month; 3 February 2020 is a Monday and the first working
  day of its month.
\<close>

definition sample_rows :: "row list" where
  "sample_rows =
     [\<lparr>Date = (2020, 1, 28), cells = [1, 2, 3, 4]\<rparr>,
      \<lparr>Date = (2020, 1, 29), cells = [1, 2, 3, 4]\<rparr>,
      \<lparr>Date = (2020, 1, 30), cells = [1, 2, 3, 4]\<rparr>,
      \<lparr>Date = (2020, 1, 31), cells = [1, 2, 3, 4]\<rparr>,
      \<lparr>Date = (2020, 2, 3), cells = [2, 2, 3, 5]\<rparr>]"

definition sample_final :: state where
  "sample_final =
     \<lparr>top_1 = 4, top_2 = 3, top_3 = 2, old_tops = (1, 1, 1),
      portfolio_value = [1, 1, 1, 1, 15 / 4], index_level = [1, 1, 1, 1, 2],
      divisor = 15 / 8, old_portfolio_value = 2\<rparr>"

text \<open>A frame of three rows that all hold the same prices, one per column.\<close>

definition sample_frame :: "string list \<Rightarrow> real list \<Rightarrow> frame" where
  "sample_frame names prices =
     \<lparr>columns = names,
      rows = [\<lparr>Date = (2020, 1, 30), cells = prices\<rparr>,
              \<lparr>Date = (2020, 1, 31), cells = prices\<rparr>,
              \<lparr>Date = (2020, 2, 3), cells = prices\<rparr>]\<rparr>"

definition frame_10 :: frame where
  "frame_10 =
     sample_frame [''A'', ''B'', ''C'', ''D'', ''E'', ''F'', ''G'', ''H'', ''I'', ''J'']
       [1, 2, 3, 4, 5, 6, 7, 8, 9, 10]"

definition frame_11 :: frame where
  "frame_11 =
     sample_frame [''A'', ''B'', ''C'', ''D'', ''E'', ''F'', ''G'', ''H'', ''I'', ''J'', ''K'']
       [1, 2, 3, 4, 5, 6, 7, 8, 9, 10, 11]"

section \<open>Properties\<close>

subsection \<open>Exceptions\<close>

lemma ebind_Inl [simp]: "ebind (Inl e) f = Inl e"
  by (simp add: ebind_def)

lemma ebind_Inr [simp]: "ebind (Inr x) f = f x"
  by (simp add: ebind_def)

lemma ebind_eq_Inr: "ebind m f = Inr y \<longleftrightarrow> (\<exists>x. m = Inr x \<and> f x = Inr y)"
  by (cases m) simp_all

subsection \<open>Ranking\<close>

lemma sort_reverse_sorted: "sorted_wrt (\<lambda>a b. b \<le> a) (sort_reverse (xs::'a::linorder list))"
  by (simp add: sort_reverse_def sorted_wrt_rev)

lemma mset_sort_reverse: "mset (sort_reverse xs) = mset xs"
  by (simp add: sort_reverse_def)

lemma top_n_nat: "top_n xs (int n) = take n (sort_reverse xs)"
  by (simp add: top_n_def slice_to_def)

lemma length_top_n: "length (top_n xs (int n)) = min n (length xs)"
  by (simp add: top_n_nat sort_reverse_def min.commute)

lemma sorted_top_n: "sorted_wrt (\<lambda>a b. b \<le> a) (top_n xs (int n))"
  by (simp add: top_n_nat sort_reverse_sorted)

lemma mset_top_n_rest:
  "mset xs - mset (top_n xs (int n)) = mset (drop n (sort_reverse xs))"
proof -
  have "mset xs = mset (take n (sort_reverse xs)) + mset (drop n (sort_reverse xs))"
    by (simp add: mset_sort_reverse flip: mset_append)
  then show ?thesis by (simp add: top_n_nat)
qed

lemma mset_top_n_sub: "mset (top_n xs (int n)) \<subseteq># mset xs"
proof -
  have "mset xs = mset (take n (sort_reverse xs)) + mset (drop n (sort_reverse xs))"
    by (simp add: mset_sort_reverse flip: mset_append)
  then show ?thesis by (simp add: top_n_nat)
qed

lemma top_n_largest:
  assumes "a \<in># mset xs - mset (top_n xs (int n))" and "b \<in> set (top_n xs (int n))"
  shows "a \<le> b"
proof -
  have "sorted_wrt (\<lambda>a b. b \<le> a) (take n (sort_reverse xs) @ drop n (sort_reverse xs))"
    by (simp add: sort_reverse_sorted)
  then have "\<forall>x\<in>set (take n (sort_reverse xs)). \<forall>y\<in>set (drop n (sort_reverse xs)). y \<le> x"
    unfolding sorted_wrt_append by blast
  moreover have "a \<in> set (drop n (sort_reverse xs))"
    using assms(1) by (simp add: mset_top_n_rest)
  moreover have "b \<in> set (take n (sort_reverse xs))"
    using assms(2) by (simp add: top_n_nat)
  ultimately show ?thesis by blast
qed

lemma top_n_store_eq:
  assumes "values < length h"
  shows "top_n_store h values n =
           (h @ [sort_reverse (h ! values), top_n (h ! values) n], Suc (length h))"
  using assms
  by (simp add: top_n_store_def list_copy_def list_sort_reverse_def list_slice_to_def
      top_n_def nth_append)

text \<open>
  Claim C6. For every list \<open>v\<close> and natural number \<open>n\<close>, \<open>top_n\<close> leaves its argument
  as it was: the list at the address \<open>values\<close>, and every list allocated before the call,
  is the same after the call. The list it returns has length \<open>min n (len v)\<close>, is in
  descending order, and holds the \<open>n\<close> largest values of \<open>v\<close>: it is a sub-multiset of
  \<open>v\<close>, and no value left out is larger than a value returned.
\<close>

theorem top_n_spec:
  assumes "values < length h"
  shows "case top_n_store h values (int n) of (h', x) \<Rightarrow>
           h' ! values = h ! values \<and> take (length h) h' = h \<and>
           h' ! x = top_n (h ! values) (int n) \<and>
           length (h' ! x) = min n (length (h ! values)) \<and>
           sorted_wrt (\<lambda>a b. b \<le> a) (h' ! x) \<and>
           mset (h' ! x) \<subseteq># mset (h ! values) \<and>
           (\<forall>a \<in># mset (h ! values) - mset (h' ! x). \<forall>b \<in> set (h' ! x). a \<le> b)"
proof -
  let ?res = "top_n (h ! values) (int n)"
  let ?h' = "h @ [sort_reverse (h ! values), ?res]"
  have run: "top_n_store h values (int n) = (?h', Suc (length h))"
    using assms by (rule top_n_store_eq)
  have same: "?h' ! values = h ! values"
    using assms by (simp add: nth_append)
  have old: "take (length h) ?h' = h"
    by simp
  have res: "?h' ! Suc (length h) = ?res"
    by (simp add: nth_append)
  have big: "\<forall>a \<in># mset (h ! values) - mset ?res. \<forall>b \<in> set ?res. a \<le> b"
    using top_n_largest by blast
  show ?thesis
    unfolding run prod.case res same old
    using length_top_n sorted_top_n mset_top_n_sub big by blast
qed

theorem top_n_spec_witness:
  "(0::nat) < length [[3, 1, 2::int]] \<and>
   (case top_n_store [[3, 1, 2::int]] 0 (int 2) of (h', x) \<Rightarrow>
      h' ! 0 = [3, 1, 2] \<and> h' ! x = [3, 2] \<and> length (h' ! x) = 2)"
proof -
  have h: "(0::nat) < length [[3, 1, 2::int]]" by simp
  have e: "top_n [3, 1, 2::int] 2 = [3, 2]"
    by (simp add: top_n_def slice_to_def sort_reverse_def)
  show ?thesis using h top_n_spec [OF h, of 2] by (auto simp: e split: prod.splits)
qed

text \<open>
  Claim C7. There is a list in which two positions hold the same price among the three
  largest values, and on which \<open>top3_list_index\<close> returns the same position twice: the
  values 10, 10 and 7 are the top three of \<open>[10, 10, 7, 1]\<close>, each 10 is mapped to its
  first occurrence, position 0, and the selection has two distinct positions instead of
  three. A rebalance on a row of these prices sets \<open>top_1\<close> and \<open>top_2\<close> to the same
  column.
\<close>

theorem top3_list_index_collapse:
  "(let vals = [10, 10, 7, 1::real] in
      vals ! 0 = vals ! 1 \<and> top_n vals 3 = [10, 10, 7] \<and>
      list_index vals 10 = Inr 0 \<and>
      top3_list_index vals = Inr (0, 0, 2) \<and>
      card {0, 0, 2::nat} = 2 \<and>
      rebalance \<lparr>Date = (2020, 1, 31), cells = vals\<rparr> init
        = Inr (init\<lparr>old_tops := (1, 1, 1), top_1 := 1, top_2 := 1, top_3 := 3\<rparr>))"
  by (simp add: top3_list_index_def top_n_def slice_to_def sort_reverse_def list_get_def
      rebalance_def price_list_def init_def)



subsection \<open>Calendar\<close>

lemma month_cases:
  assumes "1 \<le> (m::int)" "m \<le> 12"
  shows "m = 1 \<or> m = 2 \<or> m = 3 \<or> m = 4 \<or> m = 5 \<or> m = 6 \<or> m = 7 \<or> m = 8 \<or> m = 9
         \<or> m = 10 \<or> m = 11 \<or> m = 12"
  using assms by arith

lemma ndays_bounds:
  assumes "1 \<le> month" "month \<le> 12"
  shows "28 \<le> ndays year month \<and> ndays year month \<le> 31"
  using month_cases [OF assms] by (auto simp: ndays_def mdays_def)

lemma dt_date_valid:
  assumes "1 \<le> year" "year \<le> 9999" "1 \<le> month" "month \<le> 12"
    and "1 \<le> d" "d \<le> ndays year month"
  shows "dt_date year month d = Inr (year, month, d)"
  using assms by (simp add: dt_date_def)

lemma calendar_weekday_valid:
  assumes "1 \<le> year" "year \<le> 9999" "1 \<le> month" "month \<le> 12"
    and "1 \<le> d" "d \<le> ndays year month"
  shows "calendar_weekday year month d = Inr (date_weekday (year, month, d))"
  using assms by (simp add: calendar_weekday_def dt_date_def)

lemma date_weekday_shift:
  "date_weekday (year, month, d - k) = (date_weekday (year, month, d) - k) mod 7"
  by (simp add: date_weekday_def toordinal_def mod_simps algebra_simps)

lemma date_weekday_plus:
  "date_weekday (year, month, d + k) = (date_weekday (year, month, d) + k) mod 7"
  by (simp add: date_weekday_def toordinal_def mod_simps add_ac)

lemma date_weekday_range: "0 \<le> date_weekday d \<and> date_weekday d < 7"
  by (simp add: date_weekday_def)

lemma month_last_day_valid:
  assumes "1 \<le> year" "year \<le> 9999" "1 \<le> month" "month \<le> 12"
  shows "month_last_day (year, month, day) = Inr (year, month, ndays year month)"
proof -
  have n: "28 \<le> ndays year month" using ndays_bounds assms by blast
  have "calendar_weekday year month 1 = Inr (date_weekday (year, month, 1))"
    using assms n by (intro calendar_weekday_valid) simp_all
  moreover have "dt_date year month (ndays year month) = Inr (year, month, ndays year month)"
    using assms n by (intro dt_date_valid) simp_all
  ultimately show ?thesis
    using assms by (simp add: month_last_day_def monthrange_def)
qed

lemma last_working_day_valid:
  assumes "1 \<le> year" "year \<le> 9999" "1 \<le> month" "month \<le> 12"
  shows "last_working_day (year, month, day) =
           Inr (year, month, ndays year month
                  - (let w = date_weekday (year, month, ndays year month)
                     in if w = 5 then 1 else if w = 6 then 2 else 0))"
proof -
  let ?n = "ndays year month"
  let ?w = "date_weekday (year, month, ?n)"
  have n: "28 \<le> ?n" "?n \<le> 31" using ndays_bounds assms by blast+
  have wd: "calendar_weekday year month ?n = Inr ?w"
    using assms n by (intro calendar_weekday_valid) simp_all
  have d: "dt_date year month (?n - k) = Inr (year, month, ?n - k)" if "0 \<le> k" "k \<le> 2" for k
    using assms n that by (intro dt_date_valid) simp_all
  show ?thesis
    using d [of 0] d [of 1] d [of 2]
    by (simp add: last_working_day_def month_last_day_valid [OF assms] wd Let_def)
qed

lemma first_working_day_valid:
  assumes "1 \<le> year" "year \<le> 9999" "1 \<le> month" "month \<le> 12"
  shows "first_working_day (year, month, day) =
           Inr (year, month,
                let w = date_weekday (year, month, 1)
                in if w = 5 then 3 else if w = 6 then 2 else 1)"
proof -
  let ?n = "ndays year month"
  have n: "28 \<le> ?n" using ndays_bounds assms by blast
  have wd: "calendar_weekday year month 1 = Inr (date_weekday (year, month, 1))"
    using assms n by (intro calendar_weekday_valid) simp_all
  have d: "dt_date year month k = Inr (year, month, k)" if "1 \<le> k" "k \<le> 3" for k
    using assms n that by (intro dt_date_valid) simp_all
  show ?thesis
    by (simp add: first_working_day_def wd d Let_def)
qed

text \<open>
  Claim C5. For every year in 1..9999 and month in 1..12, whatever the day of the date
  passed in, \<open>first_working_day\<close> and \<open>last_working_day\<close> return a date of that year
  and month whose day lies within the month and whose weekday is neither Saturday (5) nor
  Sunday (6). The last working day is the last calendar day of the month, less one day
  when that day is a Saturday, less two when it is a Sunday; the first working day is the
  3rd when the 1st is a Saturday, the 2nd when it is a Sunday, and the 1st otherwise.
\<close>

theorem working_days_in_month:
  assumes "1 \<le> year" "year \<le> 9999" "1 \<le> month" "month \<le> 12"
  shows "\<exists>f l. first_working_day (year, month, day) = Inr (year, month, f)
             \<and> last_working_day (year, month, day) = Inr (year, month, l)
             \<and> 1 \<le> f \<and> f \<le> ndays year month \<and> 1 \<le> l \<and> l \<le> ndays year month
             \<and> date_weekday (year, month, f) < 5 \<and> date_weekday (year, month, l) < 5
             \<and> l = ndays year month
                    - (let w = date_weekday (year, month, ndays year month)
                       in if w = 5 then 1 else if w = 6 then 2 else 0)
             \<and> f = (let w = date_weekday (year, month, 1)
                    in if w = 5 then 3 else if w = 6 then 2 else 1)"
proof -
  let ?n = "ndays year month"
  let ?w = "date_weekday (year, month, ?n)"
  let ?v = "date_weekday (year, month, 1)"
  let ?l = "?n - (let w = ?w in if w = 5 then 1 else if w = 6 then 2 else 0)"
  let ?f = "let w = ?v in if w = 5 then 3 else if w = 6 then 2 else (1::int)"
  have n: "28 \<le> ?n" "?n \<le> 31" using ndays_bounds assms by blast+
  have F: "first_working_day (year, month, day) = Inr (year, month, ?f)"
    using assms by (rule first_working_day_valid)
  have L: "last_working_day (year, month, day) = Inr (year, month, ?l)"
    using assms by (rule last_working_day_valid)
  have fb: "1 \<le> ?f \<and> ?f \<le> ?n" using n by (simp add: Let_def)
  have lb: "1 \<le> ?l \<and> ?l \<le> ?n" using n by (simp add: Let_def)
  have wr: "0 \<le> ?w \<and> ?w < 7" by (rule date_weekday_range)
  have lw: "date_weekday (year, month, ?l) < 5"
  proof -
    consider "?w = 5" | "?w = 6" | "?w < 5" using wr by arith
    then show ?thesis
    proof cases
      case 1
      then show ?thesis using date_weekday_shift [of year month ?n 1] by (simp add: Let_def)
    next
      case 2
      then show ?thesis using date_weekday_shift [of year month ?n 2] by (simp add: Let_def)
    next
      case 3
      then show ?thesis by (simp add: Let_def)
    qed
  qed
  have vr: "0 \<le> ?v \<and> ?v < 7" by (rule date_weekday_range)
  have fw: "date_weekday (year, month, ?f) < 5"
  proof -
    consider "?v = 5" | "?v = 6" | "?v < 5" using vr by arith
    then show ?thesis
    proof cases
      case 1
      then show ?thesis using date_weekday_plus [of year month 1 2] by (simp add: Let_def)
    next
      case 2
      then show ?thesis using date_weekday_plus [of year month 1 1] by (simp add: Let_def)
    next
      case 3
      then show ?thesis by (simp add: Let_def)
    qed
  qed
  show ?thesis using F L fb lb lw fw by blast
qed


theorem working_days_in_month_witness:
  "(1::int) \<le> 2024 \<and> (2024::int) \<le> 9999 \<and> (1::int) \<le> 2 \<and> (2::int) \<le> 12 \<and>
   first_working_day (2024, 2, 15) = Inr (2024, 2, 1) \<and>
   last_working_day (2024, 2, 15) = Inr (2024, 2, 29)"
  using working_days_in_month [of 2024 2 15]
  by (auto simp: ndays_def mdays_def isleap_def date_weekday_def toordinal_def
      days_before_year_def days_before_month_def days_before_month_tab_def)


subsection \<open>One row of the loop\<close>

lemma today_valid:
  assumes "today r = Inr d"
  shows "\<exists>year month day. Date r = (year, month, day) \<and> d = (year, month, day)
           \<and> 1 \<le> year \<and> year \<le> 9999 \<and> 1 \<le> month \<and> month \<le> 12
           \<and> 1 \<le> day \<and> day \<le> ndays year month"
  using assms by (cases "Date r") (auto simp: today_def dt_date_def split: if_splits)

lemma month_start_not_rebalance:
  assumes "month_start_day r"
  shows "\<not> rebalance_day r"
proof
  assume reb: "rebalance_day r"
  from assms obtain d where d: "today r = Inr d" and f: "first_working_day (Date r) = Inr d"
    by (auto simp: month_start_day_def split: sum.splits)
  from reb d have l: "last_working_day (Date r) = Inr d"
    by (simp add: rebalance_day_def)
  from today_valid [OF d] obtain year month day where
    D: "Date r = (year, month, day)" and
    v: "1 \<le> year" "year \<le> 9999" "1 \<le> month" "month \<le> 12"
    by blast
  have n: "28 \<le> ndays year month" using ndays_bounds v by blast
  have "snd (snd d) \<le> 3"
    using f unfolding D first_working_day_valid [OF v] by (auto simp: Let_def)
  moreover have "26 \<le> snd (snd d)"
    using l n unfolding D last_working_day_valid [OF v] by (auto simp: Let_def)
  ultimately show False by simp
qed

lemma step_today_Inl:
  assumes "today r = Inl e"
  shows "step index r s \<noteq> Inr s'"
  using assms
  by (cases "Date r") (auto simp: step_def today_def ebind_eq_Inr Let_def)

lemma step_today_Inr:
  assumes "today r = Inr d"
  shows "step index r s =
     ebind (row_prices r (top_1 s, top_2 s, top_3 s)) (\<lambda>prices.
     ebind (calc_portfolio_value prices) (\<lambda>pv.
     ebind (if rebalance_day r
            then rebalance r (s\<lparr>portfolio_value := portfolio_value s @ [pv]\<rparr>)
            else if month_start_day r
            then update_divisor index r prices (s\<lparr>portfolio_value := portfolio_value s @ [pv]\<rparr>)
            else Inr (s\<lparr>portfolio_value := portfolio_value s @ [pv]\<rparr>)) (\<lambda>s2.
     ebind (fdiv pv (divisor s2)) (\<lambda>il.
       Inr (s2\<lparr>index_level := index_level s2 @ [il]\<rparr>)))))"
proof -
  from today_valid [OF assms] obtain year month day where
    D: "Date r = (year, month, day)" and d: "d = (year, month, day)" and
    v: "1 \<le> year" "year \<le> 9999" "1 \<le> month" "month \<le> 12"
    by blast
  have t: "dt_date year month day = Inr d"
    using assms D by (simp add: today_def)
  obtain l where l: "last_working_day (Date r) = Inr l"
    unfolding D last_working_day_valid [OF v] by blast
  obtain f where f: "first_working_day (Date r) = Inr f"
    unfolding D first_working_day_valid [OF v] by blast
  have reb: "rebalance_day r \<longleftrightarrow> d = l"
    using assms l by (auto simp: rebalance_day_def)
  have ms: "month_start_day r \<longleftrightarrow> d = f"
    using assms f by (auto simp: month_start_day_def)
  show ?thesis
  proof (cases "row_prices r (top_1 s, top_2 s, top_3 s)")
    case (Inl e)
    then show ?thesis by (simp add: step_def D)
  next
    case prices: (Inr prices)
    show ?thesis
    proof (cases "calc_portfolio_value prices")
      case (Inl e)
      then show ?thesis by (simp add: step_def D prices)
    next
      case (Inr pv)
      then show ?thesis
        using l f by (simp add: step_def D prices t Let_def reb ms)
    qed
  qed
qed



lemma step_InrE:
  assumes "step index r s = Inr s'"
  obtains prices pv s2 d where
    "today r = Inr d"
    "row_prices r (top_1 s, top_2 s, top_3 s) = Inr prices"
    "calc_portfolio_value prices = Inr pv"
    "(if rebalance_day r
      then rebalance r (s\<lparr>portfolio_value := portfolio_value s @ [pv]\<rparr>)
      else if month_start_day r
      then update_divisor index r prices (s\<lparr>portfolio_value := portfolio_value s @ [pv]\<rparr>)
      else Inr (s\<lparr>portfolio_value := portfolio_value s @ [pv]\<rparr>)) = Inr s2"
    "divisor s2 \<noteq> 0"
    "s' = s2\<lparr>index_level := index_level s2 @ [pv / divisor s2]\<rparr>"
proof (cases "today r")
  case (Inl e)
  then show ?thesis using assms step_today_Inl by blast
next
  case (Inr d)
  from assms show ?thesis
    unfolding step_today_Inr [OF Inr] ebind_eq_Inr fdiv_def
    by (elim exE conjE) (auto split: if_splits intro: that [OF Inr])
qed

lemma rebalance_Inr:
  assumes "rebalance r s = Inr s2"
  shows "\<exists>x y z. top3_list_index (price_list r) = Inr (x, y, z)
           \<and> s2 = s\<lparr>old_tops := (top_1 s, top_2 s, top_3 s),
                    top_1 := x + 1, top_2 := y + 1, top_3 := z + 1\<rparr>"
  using assms by (auto simp: rebalance_def ebind_eq_Inr)

lemma update_divisor_Inr:
  assumes "update_divisor index r prices s = Inr s2"
  shows "\<exists>opv new. (if 3 < index then value_at r (old_tops s) = Inr opv
                     else opv = old_portfolio_value s)
           \<and> calc_portfolio_value prices = Inr new \<and> opv \<noteq> 0
           \<and> s2 = s\<lparr>old_portfolio_value := opv, divisor := new / opv * divisor s\<rparr>"
  using assms
  by (auto simp: update_divisor_def ebind_eq_Inr fdiv_def value_at_def split: if_splits)

lemma value_at_Inr:
  "value_at r sel = Inr v \<longleftrightarrow>
     (\<exists>prices. row_prices r sel = Inr prices \<and> calc_portfolio_value prices = Inr v)"
  by (simp add: value_at_def ebind_eq_Inr)

lemma step_columns:
  assumes "step index r s = Inr s'"
  shows "\<exists>pv il. value_at r (top_1 s, top_2 s, top_3 s) = Inr pv
           \<and> portfolio_value s' = portfolio_value s @ [pv]
           \<and> index_level s' = index_level s @ [il]
           \<and> divisor s' \<noteq> 0 \<and> il = pv / divisor s'"
  using assms
  by (elim step_InrE) (auto simp: value_at_Inr split: if_splits dest!: rebalance_Inr update_divisor_Inr)

subsection \<open>The whole loop\<close>

lemma iterrows_append:
  "iterrows k (xs @ ys) s = ebind (iterrows k xs s) (iterrows (k + length xs) ys)"
proof (induction xs arbitrary: k s)
  case Nil
  then show ?case by simp
next
  case (Cons x xs)
  show ?case
    by (cases "step k x s") (simp_all add: Cons.IH)
qed

lemma iterrows_split:
  assumes "iterrows k rs s0 = Inr sf" and "i < length rs"
  obtains s s' where
    "iterrows k (take i rs) s0 = Inr s"
    "step (k + i) (rs ! i) s = Inr s'"
    "iterrows (Suc (k + i)) (drop (Suc i) rs) s' = Inr sf"
proof -
  have rs: "rs = take i rs @ (rs ! i # drop (Suc i) rs)"
    using assms(2) by (simp add: id_take_nth_drop)
  have len: "length (take i rs) = i"
    using assms(2) by simp
  have "iterrows k (take i rs @ (rs ! i # drop (Suc i) rs)) s0 = Inr sf"
    using assms(1) rs by simp
  then show ?thesis
    unfolding iterrows_append len
    by (auto simp: ebind_eq_Inr intro: that)
qed

lemma iterrows_columns:
  assumes "iterrows k rs s = Inr sf"
  shows "\<exists>ps ls. portfolio_value sf = portfolio_value s @ ps \<and> length ps = length rs
           \<and> index_level sf = index_level s @ ls \<and> length ls = length rs"
  using assms
proof (induction rs arbitrary: k s)
  case Nil
  then show ?case by simp
next
  case (Cons r rs)
  from Cons.prems obtain s' where
    st: "step k r s = Inr s'" and it: "iterrows (Suc k) rs s' = Inr sf"
    by (auto simp: ebind_eq_Inr)
  from step_columns [OF st] obtain pv il where
    a: "portfolio_value s' = portfolio_value s @ [pv]" "index_level s' = index_level s @ [il]"
    by blast
  from Cons.IH [OF it] obtain ps ls where
    b: "portfolio_value sf = portfolio_value s' @ ps" "length ps = length rs"
       "index_level sf = index_level s' @ ls" "length ls = length rs"
    by blast
  have "portfolio_value sf = portfolio_value s @ (pv # ps)" "length (pv # ps) = length (r # rs)"
       "index_level sf = index_level s @ (il # ls)" "length (il # ls) = length (r # rs)"
    using a b by simp_all
  then show ?case by blast
qed

lemma iterrows_init_lengths:
  assumes "iterrows 0 rs init = Inr s"
  shows "length (portfolio_value s) = length rs \<and> length (index_level s) = length rs"
  using iterrows_columns [OF assms] by (auto simp: init_def)

text \<open>The values recorded for row \<open>i\<close> are those its pass appended.\<close>

lemma recorded_at:
  assumes "iterrows 0 (take i rs) init = Inr s" and "i < length rs"
    and "step i (rs ! i) s = Inr s'"
    and "iterrows (Suc i) (drop (Suc i) rs) s' = Inr sf"
  shows "portfolio_value sf ! i = last (portfolio_value s')
       \<and> index_level sf ! i = last (index_level s')"
proof -
  have len: "length (portfolio_value s) = i" "length (index_level s) = i"
    using iterrows_init_lengths [OF assms(1)] assms(2) by simp_all
  from step_columns [OF assms(3)] obtain pv il where
    a: "portfolio_value s' = portfolio_value s @ [pv]" "index_level s' = index_level s @ [il]"
    by blast
  from iterrows_columns [OF assms(4)] obtain ps ls where
    b: "portfolio_value sf = portfolio_value s' @ ps" "index_level sf = index_level s' @ ls"
    by blast
  show ?thesis using len by (simp add: a b nth_append)
qed



subsection \<open>Evaluation on the sample series\<close>

lemmas calendar_eval = today_def dt_date_def ndays_def mdays_def isleap_def
  last_working_day_def month_last_day_def monthrange_def calendar_weekday_def
  first_working_day_def date_weekday_def toordinal_def days_before_year_def
  days_before_month_def days_before_month_tab_def

lemmas ranking_eval = top3_list_index_def top_n_def slice_to_def sort_reverse_def list_get_def

lemmas engine_eval = step_def init_def row_prices_def row_get_def py_float_def
  calc_portfolio_value_def fdiv_def rebalance_def update_divisor_def price_list_def
  value_at_def

lemma sample_run: "iterrows 0 sample_rows init = Inr sample_final"
  by (simp add: sample_rows_def sample_final_def calendar_eval ranking_eval engine_eval)

subsection \<open>The recorded columns\<close>

text \<open>
  Claim C1, as amended. Let the pass over the series succeed. For every row \<open>i\<close> the
  recorded \<open>portfolio_value\<close> is \<open>calc_portfolio_value\<close> of that row's prices at the
  selection \<open>(top_1, top_2, top_3)\<close> held when the pass reaches the row. On a rebalance
  day that is the selection of the rows before: the top three of the row become the
  selection only after the value is recorded, and the selection held before is kept in
  \<open>old_tops\<close>. On any other day the selection stays as it is.
\<close>

theorem portfolio_value_recorded:
  assumes "iterrows 0 rs init = Inr sf" and "i < length rs"
  shows "\<exists>s s'. iterrows 0 (take i rs) init = Inr s \<and> step i (rs ! i) s = Inr s'
           \<and> value_at (rs ! i) (top_1 s, top_2 s, top_3 s) = Inr (portfolio_value sf ! i)
           \<and> (if rebalance_day (rs ! i)
              then old_tops s' = (top_1 s, top_2 s, top_3 s)
                   \<and> top3_list_index (price_list (rs ! i))
                       = Inr (top_1 s' - 1, top_2 s' - 1, top_3 s' - 1)
                   \<and> 1 \<le> top_1 s' \<and> 1 \<le> top_2 s' \<and> 1 \<le> top_3 s'
              else (top_1 s', top_2 s', top_3 s') = (top_1 s, top_2 s, top_3 s))"
proof -
  from iterrows_split [OF assms] obtain s s' where
    pre: "iterrows 0 (take i rs) init = Inr s" and
    st: "step (0 + i) (rs ! i) s = Inr s'" and
    post: "iterrows (Suc (0 + i)) (drop (Suc i) rs) s' = Inr sf"
    by blast
  from st have st': "step i (rs ! i) s = Inr s'" by simp
  from post have post': "iterrows (Suc i) (drop (Suc i) rs) s' = Inr sf" by simp
  from step_columns [OF st'] obtain pv il where
    v: "value_at (rs ! i) (top_1 s, top_2 s, top_3 s) = Inr pv" and
    p: "portfolio_value s' = portfolio_value s @ [pv]"
    by blast
  have "portfolio_value sf ! i = pv"
    using recorded_at [OF pre assms(2) st' post'] p by simp
  then have val: "value_at (rs ! i) (top_1 s, top_2 s, top_3 s) = Inr (portfolio_value sf ! i)"
    using v by simp
  have sel: "if rebalance_day (rs ! i)
              then old_tops s' = (top_1 s, top_2 s, top_3 s)
                   \<and> top3_list_index (price_list (rs ! i))
                       = Inr (top_1 s' - 1, top_2 s' - 1, top_3 s' - 1)
                   \<and> 1 \<le> top_1 s' \<and> 1 \<le> top_2 s' \<and> 1 \<le> top_3 s'
              else (top_1 s', top_2 s', top_3 s') = (top_1 s, top_2 s, top_3 s)"
    using st'
    by (elim step_InrE) (auto split: if_splits dest!: rebalance_Inr update_divisor_Inr)
  show ?thesis using pre st' val sel by blast
qed

theorem portfolio_value_recorded_witness:
  "iterrows 0 sample_rows init = Inr sample_final \<and> (3::nat) < length sample_rows
   \<and> (\<exists>s. iterrows 0 (take 3 sample_rows) init = Inr s
          \<and> value_at (sample_rows ! 3) (top_1 s, top_2 s, top_3 s)
              = Inr (portfolio_value sample_final ! 3))"
proof -
  have h1: "iterrows 0 sample_rows init = Inr sample_final" by (rule sample_run)
  have h2: "(3::nat) < length sample_rows" by (simp add: sample_rows_def)
  show ?thesis using h1 h2 portfolio_value_recorded [OF h1 h2] by blast
qed

text \<open>
  Claim C1 as stated fails on the sample series. Row 3, dated 31 January 2020, is a
  rebalance day. The top three of its prices are at positions (3, 2, 1) of the price list,
  so the new selection is (4, 3, 2), whose value on the row is 13/4; the value recorded
  for the row is 1, the value of the selection (1, 1, 1) held before.
\<close>

theorem portfolio_value_new_selection_counterexample:
  "iterrows 0 sample_rows init = Inr sample_final
   \<and> rebalance_day (sample_rows ! 3)
   \<and> top3_list_index (price_list (sample_rows ! 3)) = Inr (3, 2, 1)
   \<and> value_at (sample_rows ! 3) (4, 3, 2) = Inr (13 / 4)
   \<and> value_at (sample_rows ! 3) (1, 1, 1) = Inr 1
   \<and> portfolio_value sample_final ! 3 = 1"
proof -
  have "rebalance_day (sample_rows ! 3)"
    by (simp add: sample_rows_def rebalance_day_def calendar_eval)
  moreover have "top3_list_index (price_list (sample_rows ! 3)) = Inr (3, 2, 1)"
    by (simp add: sample_rows_def price_list_def ranking_eval)
  moreover have "value_at (sample_rows ! 3) (4, 3, 2) = Inr (13 / 4)"
    by (simp add: sample_rows_def engine_eval list_get_def)
  moreover have "value_at (sample_rows ! 3) (1, 1, 1) = Inr 1"
    by (simp add: sample_rows_def engine_eval list_get_def)
  moreover have "portfolio_value sample_final ! 3 = 1"
    by (simp add: sample_final_def)
  ultimately show ?thesis using sample_run by blast
qed

subsection \<open>Ordinary days\<close>

text \<open>
  Claim C8. When a row is neither a rebalance day nor a month-start day, a pass of the
  loop that succeeds leaves the selection, the old selection, the divisor and the old
  portfolio value as they were. The divisor changes on month-start days only: a pass over
  a row that is not a month-start day keeps it, a run over rows none of which is a
  month-start day ends with the divisor it started with, and the initial divisor is 1.
\<close>

theorem ordinary_day_frame:
  "(step index r s = Inr s' \<and> \<not> rebalance_day r \<and> \<not> month_start_day r \<longrightarrow>
      top_1 s' = top_1 s \<and> top_2 s' = top_2 s \<and> top_3 s' = top_3 s
      \<and> old_tops s' = old_tops s \<and> divisor s' = divisor s
      \<and> old_portfolio_value s' = old_portfolio_value s)
   \<and> (step index r s = Inr s' \<and> \<not> month_start_day r \<longrightarrow> divisor s' = divisor s)
   \<and> (iterrows k rs s = Inr sf \<and> (\<forall>r \<in> set rs. \<not> month_start_day r) \<longrightarrow>
        divisor sf = divisor s)
   \<and> divisor init = 1"
proof -
  have a: "top_1 s' = top_1 s \<and> top_2 s' = top_2 s \<and> top_3 s' = top_3 s
      \<and> old_tops s' = old_tops s \<and> divisor s' = divisor s
      \<and> old_portfolio_value s' = old_portfolio_value s"
    if "step index r s = Inr s'" "\<not> rebalance_day r" "\<not> month_start_day r"
    using that by (elim step_InrE) auto
  have b: "divisor s' = divisor s"
    if "step index r s = Inr s'" "\<not> month_start_day r" for index r s s'
    using that by (elim step_InrE) (auto split: if_splits dest!: rebalance_Inr)
  have c: "divisor sf = divisor s"
    if "iterrows k rs s = Inr sf" "\<forall>r \<in> set rs. \<not> month_start_day r"
    using that
  proof (induction rs arbitrary: k s)
    case Nil
    then show ?case by simp
  next
    case (Cons r rs)
    from Cons.prems(1) obtain s' where
      st: "step k r s = Inr s'" and it: "iterrows (Suc k) rs s' = Inr sf"
      by (auto simp: ebind_eq_Inr)
    have "divisor s' = divisor s" using b [OF st] Cons.prems(2) by simp
    moreover have "divisor sf = divisor s'" using Cons.IH [OF it] Cons.prems(2) by simp
    ultimately show ?case by simp
  qed
  have d: "divisor init = 1" by (simp add: init_def)
  show ?thesis using a b [of index r s s'] c d by blast
qed

theorem ordinary_day_frame_witness:
  "step 0 (sample_rows ! 0) init
     = Inr (init\<lparr>portfolio_value := [1], index_level := [1]\<rparr>)
   \<and> \<not> rebalance_day (sample_rows ! 0) \<and> \<not> month_start_day (sample_rows ! 0)
   \<and> iterrows 0 (take 3 sample_rows) init
     = Inr (init\<lparr>portfolio_value := [1, 1, 1], index_level := [1, 1, 1]\<rparr>)
   \<and> map month_start_day (take 3 sample_rows) = [False, False, False]
   \<and> divisor (init\<lparr>portfolio_value := [1], index_level := [1]\<rparr>) = divisor init
   \<and> divisor (init\<lparr>portfolio_value := [1, 1, 1], index_level := [1, 1, 1]\<rparr>) = divisor init"
proof -
  have h1: "step 0 (sample_rows ! 0) init
              = Inr (init\<lparr>portfolio_value := [1], index_level := [1]\<rparr>)"
    by (simp add: sample_rows_def calendar_eval engine_eval list_get_def)
  have h2: "\<not> rebalance_day (sample_rows ! 0)"
    by (simp add: sample_rows_def rebalance_day_def calendar_eval)
  have h3: "\<not> month_start_day (sample_rows ! 0)"
    by (simp add: sample_rows_def month_start_day_def calendar_eval)
  have h4: "iterrows 0 (take 3 sample_rows) init
              = Inr (init\<lparr>portfolio_value := [1, 1, 1], index_level := [1, 1, 1]\<rparr>)"
    by (simp add: sample_rows_def calendar_eval engine_eval list_get_def)
  have h5: "\<forall>r \<in> set (take 3 sample_rows). \<not> month_start_day r"
    by (simp add: sample_rows_def month_start_day_def calendar_eval)
  have h6: "map month_start_day (take 3 sample_rows) = [False, False, False]"
    by (simp add: sample_rows_def month_start_day_def calendar_eval)
  show ?thesis
    using h1 h2 h3 h4 h5 h6
      ordinary_day_frame [of 0 "sample_rows ! 0" init
        "init\<lparr>portfolio_value := [1], index_level := [1]\<rparr>" 0 "take 3 sample_rows"
        "init\<lparr>portfolio_value := [1, 1, 1], index_level := [1, 1, 1]\<rparr>"]
    by blast
qed

subsection \<open>The divisor\<close>

lemma step_old_portfolio_value:
  assumes "step index r s = Inr s'" and "index \<le> 3"
  shows "old_portfolio_value s' = old_portfolio_value s"
  using assms
  by (elim step_InrE) (auto split: if_splits dest!: rebalance_Inr update_divisor_Inr)

lemma iterrows_old_portfolio_value:
  assumes "iterrows k rs s = Inr sf" and "k + length rs \<le> 4"
  shows "old_portfolio_value sf = old_portfolio_value s"
  using assms
proof (induction rs arbitrary: k s)
  case Nil
  then show ?case by simp
next
  case (Cons r rs)
  from Cons.prems(1) obtain s' where
    st: "step k r s = Inr s'" and it: "iterrows (Suc k) rs s' = Inr sf"
    by (auto simp: ebind_eq_Inr)
  have "old_portfolio_value s' = old_portfolio_value s"
    using step_old_portfolio_value [OF st] Cons.prems(2) by simp
  moreover have "old_portfolio_value sf = old_portfolio_value s'"
    using Cons.IH [OF it] Cons.prems(2) by simp
  ultimately show ?case by simp
qed

text \<open>
  Claim C4. Let the pass over the series succeed and let row \<open>i\<close> be a divisor-update
  day: its date is the first working day of its month (and so not the last). The pass over
  the row sets the divisor to \<open>new / den * divisor\<close>, where \<open>new\<close> is the value of the
  selection on the row and \<open>den\<close> is the value of the old selection on the row when
  \<open>i > 3\<close>, and the constant 100 when \<open>i\<close> is 0, 1, 2 or 3.
\<close>

theorem divisor_update_rule:
  assumes "iterrows 0 rs init = Inr sf" and "i < length rs"
    and "divisor_update_day (rs ! i)"
  shows "\<exists>s s' new den. iterrows 0 (take i rs) init = Inr s \<and> step i (rs ! i) s = Inr s'
           \<and> value_at (rs ! i) (top_1 s, top_2 s, top_3 s) = Inr new
           \<and> (if i \<le> 3 then den = 100 else value_at (rs ! i) (old_tops s) = Inr den)
           \<and> den \<noteq> 0
           \<and> divisor s' = new / den * divisor s"
proof -
  let ?r = "rs ! i"
  from iterrows_split [OF assms(1,2)] obtain s s' where
    pre: "iterrows 0 (take i rs) init = Inr s" and
    st: "step i ?r s = Inr s'" and
    post: "iterrows (Suc i) (drop (Suc i) rs) s' = Inr sf"
    by auto
  from assms(3) have day: "\<not> rebalance_day ?r" "month_start_day ?r"
    by (simp_all add: divisor_update_day_def)
  from st obtain prices pv s2 where
    pr: "row_prices ?r (top_1 s, top_2 s, top_3 s) = Inr prices" and
    pv: "calc_portfolio_value prices = Inr pv" and
    br: "update_divisor i ?r prices (s\<lparr>portfolio_value := portfolio_value s @ [pv]\<rparr>) = Inr s2" and
    s': "s' = s2\<lparr>index_level := index_level s2 @ [pv / divisor s2]\<rparr>"
    by (elim step_InrE) (simp add: day)
  let ?s1 = "s\<lparr>portfolio_value := portfolio_value s @ [pv]\<rparr>"
  from update_divisor_Inr [OF br] obtain opv new where
    u: "if 3 < i then value_at ?r (old_tops ?s1) = Inr opv else opv = old_portfolio_value ?s1"
       "calc_portfolio_value prices = Inr new" "opv \<noteq> 0"
       "s2 = ?s1\<lparr>old_portfolio_value := opv, divisor := new / opv * divisor ?s1\<rparr>"
    by blast
  have np: "new = pv" using u(2) pv by simp
  have den: "if 3 < i then value_at ?r (old_tops s) = Inr opv else opv = old_portfolio_value s"
    using u(1) by (cases "3 < i") simp_all
  have opv: "opv \<noteq> 0" by (rule u(3))
  have s2: "divisor s2 = pv / opv * divisor s"
    by (simp add: u(4) np)
  have seed: "old_portfolio_value s = 100" if "i \<le> 3"
  proof -
    have "0 + length (take i rs) \<le> 4" using that by simp
    from iterrows_old_portfolio_value [OF pre this] show ?thesis
      by (simp add: init_def)
  qed
  have new: "value_at ?r (top_1 s, top_2 s, top_3 s) = Inr pv"
    using pr pv by (auto simp: value_at_Inr)
  have den': "if i \<le> 3 then opv = 100 else value_at ?r (old_tops s) = Inr opv"
    using den seed by (cases "3 < i") simp_all
  have d: "divisor s' = pv / opv * divisor s"
    by (simp add: s' s2)
  show ?thesis
    using pre st new den' opv d by blast
qed

lemma frame_10_run:
  "iterrows 0 (rows frame_10) init =
     Inr \<lparr>top_1 = 10, top_2 = 9, top_3 = 8, old_tops = (1, 1, 1),
          portfolio_value = [1, 1, 37 / 4], index_level = [1, 1, 100],
          divisor = 37 / 400, old_portfolio_value = 100\<rparr>"
  by (simp add: frame_10_def sample_frame_def calendar_eval ranking_eval engine_eval)

theorem divisor_update_rule_witness:
  "iterrows 0 sample_rows init = Inr sample_final \<and> (4::nat) < length sample_rows
   \<and> divisor_update_day (sample_rows ! 4)
   \<and> (\<exists>s s' new den. iterrows 0 (take 4 sample_rows) init = Inr s
          \<and> step 4 (sample_rows ! 4) s = Inr s'
          \<and> value_at (sample_rows ! 4) (old_tops s) = Inr den
          \<and> divisor s' = new / den * divisor s)"
proof -
  have h1: "iterrows 0 sample_rows init = Inr sample_final" by (rule sample_run)
  have h2: "(4::nat) < length sample_rows" by (simp add: sample_rows_def)
  have h3: "divisor_update_day (sample_rows ! 4)"
    by (simp add: sample_rows_def divisor_update_day_def rebalance_day_def
        month_start_day_def calendar_eval)
  have "\<exists>s s' new den. iterrows 0 (take 4 sample_rows) init = Inr s
          \<and> step 4 (sample_rows ! 4) s = Inr s'
          \<and> value_at (sample_rows ! 4) (old_tops s) = Inr den
          \<and> divisor s' = new / den * divisor s"
    using divisor_update_rule [OF h1 h2 h3] by (elim exE conjE) auto
  then show ?thesis using h1 h2 h3 by simp
qed

subsection \<open>The date arguments\<close>

text \<open>
  Claim C10. \<open>calc_index_level\<close> does not read \<open>start_date\<close> and \<open>end_date\<close>: on the
  same frame any two choices of them give the same result, the same error or the same
  frame with the same two new columns. When the call succeeds the loop has passed over
  every row: both recorded columns have one value per row of the frame.
\<close>

theorem dates_ignored:
  "calc_index_level df start_date end_date = calc_index_level df start_date' end_date'
   \<and> (\<forall>df'. calc_index_level df start_date end_date = Inr df' \<longrightarrow>
        (\<exists>s. iterrows 0 (rows df) init = Inr s
           \<and> length (portfolio_value s) = length (rows df)
           \<and> length (index_level s) = length (rows df)
           \<and> length (rows df') = length (rows df)))"
proof -
  have a: "calc_index_level df start_date end_date = calc_index_level df start_date' end_date'"
    by (simp add: calc_index_level_def)
  have b: "\<exists>s. iterrows 0 (rows df) init = Inr s
           \<and> length (portfolio_value s) = length (rows df)
           \<and> length (index_level s) = length (rows df)
           \<and> length (rows df') = length (rows df)"
    if "calc_index_level df start_date end_date = Inr df'" for df'
  proof -
    from that obtain s df1 where
      run: "iterrows 0 (rows df) init = Inr s" and
      c1: "set_column df ''Index_Portfolio_Value'' (portfolio_value s) = Inr df1" and
      c2: "set_column df1 ''Index_Level'' (index_level s) = Inr df'"
      by (auto simp: calc_index_level_def ebind_eq_Inr)
    have l1: "length (rows df1) = length (rows df)"
      using c1 by (auto simp: set_column_def split: if_splits sum.splits)
    have l2: "length (rows df') = length (rows df1)"
      using c2 by (auto simp: set_column_def split: if_splits sum.splits)
    show ?thesis
      using run iterrows_init_lengths [OF run] l1 l2 by auto
  qed
  show ?thesis using a b by blast
qed



lemma frame_10_calc:
  "calc_index_level frame_10 start_date end_date =
     Inr \<lparr>columns = [''A'', ''B'', ''C'', ''D'', ''E'', ''F'', ''G'', ''H'', ''I'', ''J'',
                     ''Index_Portfolio_Value'', ''Index_Level''],
          rows = [\<lparr>Date = (2020, 1, 30), cells = [1, 2, 3, 4, 5, 6, 7, 8, 9, 10, 1, 1]\<rparr>,
                  \<lparr>Date = (2020, 1, 31), cells = [1, 2, 3, 4, 5, 6, 7, 8, 9, 10, 1, 1]\<rparr>,
                  \<lparr>Date = (2020, 2, 3),
                   cells = [1, 2, 3, 4, 5, 6, 7, 8, 9, 10, 37 / 4, 100]\<rparr>]\<rparr>"
  unfolding calc_index_level_def frame_10_run
  by (simp add: frame_10_def sample_frame_def set_column_def)

theorem dates_ignored_witness:
  "calc_index_level frame_10 (2020, 1, 1) (2020, 12, 31)
     = calc_index_level frame_10 (1999, 1, 1) (1999, 1, 2)
   \<and> (\<exists>df' s. calc_index_level frame_10 (2020, 1, 1) (2020, 12, 31) = Inr df'
          \<and> iterrows 0 (rows frame_10) init = Inr s
          \<and> length (portfolio_value s) = 3 \<and> length (index_level s) = 3
          \<and> length (rows df') = 3)"
proof -
  have l: "length (rows frame_10) = 3" by (simp add: frame_10_def sample_frame_def)
  obtain df' where h: "calc_index_level frame_10 (2020, 1, 1) (2020, 12, 31) = Inr df'"
    using frame_10_calc by blast
  show ?thesis
    using h l dates_ignored [of frame_10 "(2020, 1, 1)" "(2020, 12, 31)" "(1999, 1, 1)" "(1999, 1, 2)"]
    by auto
qed

subsection \<open>Export\<close>

lemma frame_11_run:
  "iterrows 0 (rows frame_11) init =
     Inr \<lparr>top_1 = 11, top_2 = 10, top_3 = 9, old_tops = (1, 1, 1),
          portfolio_value = [1, 1, 41 / 4], index_level = [1, 1, 100],
          divisor = 41 / 400, old_portfolio_value = 100\<rparr>"
  by (simp add: frame_11_def sample_frame_def calendar_eval ranking_eval engine_eval)

lemma frame_11_calc:
  "calc_index_level frame_11 start_date end_date =
     Inr \<lparr>columns = [''A'', ''B'', ''C'', ''D'', ''E'', ''F'', ''G'', ''H'', ''I'', ''J'', ''K'',
                     ''Index_Portfolio_Value'', ''Index_Level''],
          rows = [\<lparr>Date = (2020, 1, 30), cells = [1, 2, 3, 4, 5, 6, 7, 8, 9, 10, 11, 1, 1]\<rparr>,
                  \<lparr>Date = (2020, 1, 31), cells = [1, 2, 3, 4, 5, 6, 7, 8, 9, 10, 11, 1, 1]\<rparr>,
                  \<lparr>Date = (2020, 2, 3),
                   cells = [1, 2, 3, 4, 5, 6, 7, 8, 9, 10, 11, 41 / 4, 100]\<rparr>]\<rparr>"
  unfolding calc_index_level_def frame_11_run
  by (simp add: frame_11_def sample_frame_def set_column_def)

lemma list_index_absent:
  assumes "v \<notin> set xs"
  shows "list_index xs v = Inl ValueError"
  using assms by (induction xs) auto

lemma set_column_new:
  assumes "name \<notin> set (columns df)" and "length vals = length (rows df)"
  shows "set_column df name vals =
           Inr (df\<lparr>columns := columns df @ [name],
                   rows := map2 (\<lambda>r v. r\<lparr>cells := cells r @ [v]\<rparr>) (rows df) vals\<rparr>)"
  using assms by (simp add: set_column_def list_index_absent)

lemma iloc_0_12_new_columns:
  assumes "length rs = length ps" and "length ps = length ls"
    and "\<forall>r \<in> set rs. length (cells r) = 10"
  shows "iloc_0_12 (map2 (\<lambda>r v. r\<lparr>cells := cells r @ [v]\<rparr>)
                     (map2 (\<lambda>r v. r\<lparr>cells := cells r @ [v]\<rparr>) rs ps) ls)
           = Inr (zip (map Date rs) ls)"
  using assms
  by (induction rs ps ls rule: list_induct3) (simp_all add: list_get_def nth_append)

lemma iterrows_take_Suc:
  assumes "iterrows 0 (take i rs) init = Inr s" and "i < length rs"
    and "step i (rs ! i) s = Inr s'"
  shows "iterrows 0 (take (Suc i) rs) init = Inr s'"
proof -
  have "take (Suc i) rs = take i rs @ [rs ! i]"
    using assms(2) by (simp add: take_Suc_conv_app_nth)
  then show ?thesis
    using assms by (simp add: iterrows_append)
qed

lemma index_level_recorded:
  assumes "iterrows 0 rs init = Inr sf" and "i < length rs"
  shows "\<exists>s'. iterrows 0 (take (Suc i) rs) init = Inr s' \<and> divisor s' \<noteq> 0
           \<and> index_level sf ! i = portfolio_value sf ! i / divisor s'"
proof -
  from iterrows_split [OF assms] obtain s s' where
    pre: "iterrows 0 (take i rs) init = Inr s" and
    st: "step i (rs ! i) s = Inr s'" and
    post: "iterrows (Suc i) (drop (Suc i) rs) s' = Inr sf"
    by auto
  from step_columns [OF st] obtain pv il where
    c: "portfolio_value s' = portfolio_value s @ [pv]" "index_level s' = index_level s @ [il]"
       "divisor s' \<noteq> 0" "il = pv / divisor s'"
    by blast
  have "index_level sf ! i = portfolio_value sf ! i / divisor s'"
    using recorded_at [OF pre assms(2) st post] c by simp
  then show ?thesis
    using iterrows_take_Suc [OF pre assms(2) st] c(3) by blast
qed

text \<open>
  On a frame of exactly ten price columns after \<open>Date\<close>, none of them named
  \<open>Index_Portfolio_Value\<close> or \<open>Index_Level\<close>, the two new columns are at positions
  11 and 12, and the exported table holds \<open>Date\<close> and \<open>Index_Level\<close>: the dates of the
  frame paired with the index levels recorded by the loop, in the order of the frame,
  without the first two. The index level recorded for a row is the portfolio value
  recorded for it divided by the divisor in force after the pass over that row.
\<close>

lemma export_ten_columns:
  assumes "calc_index_level df start_date end_date = Inr df'"
    and "length (columns df) = 10"
    and "''Index_Portfolio_Value'' \<notin> set (columns df)"
    and "''Index_Level'' \<notin> set (columns df)"
    and "\<forall>r \<in> set (rows df). length (cells r) = 10"
  shows "\<exists>s. iterrows 0 (rows df) init = Inr s
           \<and> length (index_level s) = length (rows df)
           \<and> export_values df'
               = Inr ((''Date'', ''Index_Level''),
                      drop 2 (zip (map Date (rows df)) (index_level s)))
           \<and> (\<forall>i < length (rows df). \<exists>s'.
                 iterrows 0 (take (Suc i) (rows df)) init = Inr s'
                 \<and> index_level s ! i = portfolio_value s ! i / divisor s')"
proof -
  let ?f = "\<lambda>r v. r\<lparr>cells := cells r @ [v]\<rparr>"
  from assms(1) obtain s df1 where
    run: "iterrows 0 (rows df) init = Inr s" and
    c1: "set_column df ''Index_Portfolio_Value'' (portfolio_value s) = Inr df1" and
    c2: "set_column df1 ''Index_Level'' (index_level s) = Inr df'"
    by (auto simp: calc_index_level_def ebind_eq_Inr)
  note len = iterrows_init_lengths [OF run]
  have df1: "df1 = df\<lparr>columns := columns df @ [''Index_Portfolio_Value''],
                      rows := map2 ?f (rows df) (portfolio_value s)\<rparr>"
    using c1 set_column_new [OF assms(3), of "portfolio_value s"] len by simp
  have "''Index_Level'' \<notin> set (columns df1)"
    using assms(4) by (simp add: df1)
  moreover have "length (index_level s) = length (rows df1)"
    using len by (simp add: df1)
  ultimately have df': "df' = df1\<lparr>columns := columns df1 @ [''Index_Level''],
                                  rows := map2 ?f (rows df1) (index_level s)\<rparr>"
    using c2 set_column_new [of "''Index_Level''" df1 "index_level s"] by simp
  have cols: "columns df' = columns df @ [''Index_Portfolio_Value'', ''Index_Level'']"
    by (simp add: df' df1)
  have name: "list_get (columns df') 11 = Inr ''Index_Level''"
    using assms(2) by (simp add: cols list_get_def nth_append)
  have rws: "drop 2 (rows df')
               = map2 ?f (map2 ?f (drop 2 (rows df)) (drop 2 (portfolio_value s)))
                   (drop 2 (index_level s))"
    by (simp add: df' df1 drop_map drop_zip)
  have "\<forall>r \<in> set (drop 2 (rows df)). length (cells r) = 10"
    using assms(5) by (meson in_set_dropD)
  then have "iloc_0_12 (drop 2 (rows df'))
               = Inr (zip (map Date (drop 2 (rows df))) (drop 2 (index_level s)))"
    unfolding rws using len by (intro iloc_0_12_new_columns) simp_all
  then have ex: "export_values df'
               = Inr ((''Date'', ''Index_Level''),
                      drop 2 (zip (map Date (rows df)) (index_level s)))"
    using name by (simp add: export_values_def drop_map drop_zip)
  have lev: "\<forall>i < length (rows df). \<exists>s'.
                 iterrows 0 (take (Suc i) (rows df)) init = Inr s'
                 \<and> index_level s ! i = portfolio_value s ! i / divisor s'"
    using index_level_recorded [OF run] by blast
  show ?thesis using run len ex lev by blast
qed

lemma iloc_0_12_eleven:
  assumes "length rs = length ps" and "length ps = length ls"
    and "\<forall>r \<in> set rs. length (cells r) = 11"
  shows "iloc_0_12 (map2 (\<lambda>r v. r\<lparr>cells := cells r @ [v]\<rparr>)
                     (map2 (\<lambda>r v. r\<lparr>cells := cells r @ [v]\<rparr>) rs ps) ls)
           = Inr (zip (map Date rs) ps)"
  using assms
  by (induction rs ps ls rule: list_induct3) (simp_all add: list_get_def nth_append)

text \<open>
  On a frame of exactly eleven price columns after \<open>Date\<close>, the two new columns are at
  positions 12 and 13, and the exported table holds \<open>Date\<close> and
  \<open>Index_Portfolio_Value\<close>: the dates paired with the portfolio values recorded by the
  loop, not with the index levels.
\<close>

lemma export_eleven_columns:
  assumes "calc_index_level df start_date end_date = Inr df'"
    and "length (columns df) = 11"
    and "''Index_Portfolio_Value'' \<notin> set (columns df)"
    and "''Index_Level'' \<notin> set (columns df)"
    and "\<forall>r \<in> set (rows df). length (cells r) = 11"
  shows "\<exists>s. iterrows 0 (rows df) init = Inr s
           \<and> export_values df'
               = Inr ((''Date'', ''Index_Portfolio_Value''),
                      drop 2 (zip (map Date (rows df)) (portfolio_value s)))"
proof -
  let ?f = "\<lambda>r v. r\<lparr>cells := cells r @ [v]\<rparr>"
  from assms(1) obtain s df1 where
    run: "iterrows 0 (rows df) init = Inr s" and
    c1: "set_column df ''Index_Portfolio_Value'' (portfolio_value s) = Inr df1" and
    c2: "set_column df1 ''Index_Level'' (index_level s) = Inr df'"
    by (auto simp: calc_index_level_def ebind_eq_Inr)
  note len = iterrows_init_lengths [OF run]
  have df1: "df1 = df\<lparr>columns := columns df @ [''Index_Portfolio_Value''],
                      rows := map2 ?f (rows df) (portfolio_value s)\<rparr>"
    using c1 set_column_new [OF assms(3), of "portfolio_value s"] len by simp
  have "''Index_Level'' \<notin> set (columns df1)"
    using assms(4) by (simp add: df1)
  moreover have "length (index_level s) = length (rows df1)"
    using len by (simp add: df1)
  ultimately have df': "df' = df1\<lparr>columns := columns df1 @ [''Index_Level''],
                                  rows := map2 ?f (rows df1) (index_level s)\<rparr>"
    using c2 set_column_new [of "''Index_Level''" df1 "index_level s"] by simp
  have cols: "columns df' = columns df @ [''Index_Portfolio_Value'', ''Index_Level'']"
    by (simp add: df' df1)
  have name: "list_get (columns df') 11 = Inr ''Index_Portfolio_Value''"
    using assms(2) by (simp add: cols list_get_def nth_append)
  have rws: "drop 2 (rows df')
               = map2 ?f (map2 ?f (drop 2 (rows df)) (drop 2 (portfolio_value s)))
                   (drop 2 (index_level s))"
    by (simp add: df' df1 drop_map drop_zip)
  have "\<forall>r \<in> set (drop 2 (rows df)). length (cells r) = 11"
    using assms(5) by (meson in_set_dropD)
  then have "iloc_0_12 (drop 2 (rows df'))
               = Inr (zip (map Date (drop 2 (rows df))) (drop 2 (portfolio_value s)))"
    unfolding rws using len by (intro iloc_0_12_eleven) simp_all
  then have "export_values df'
               = Inr ((''Date'', ''Index_Portfolio_Value''),
                      drop 2 (zip (map Date (rows df)) (portfolio_value s)))"
    using name by (simp add: export_values_def drop_map drop_zip)
  then show ?thesis using run by blast
qed

text \<open>
  Claim C2. The exported table is to hold exactly the two columns \<open>Date\<close> and
  \<open>Index_Level\<close>, for the rows from the third on. On \<open>frame_11\<close>, a frame of eleven
  price columns, which is the format of the input, it does not: \<open>export_values\<close> takes
  the column at position 12, which after \<open>calc_index_level\<close> is
  \<open>Index_Portfolio_Value\<close>, while \<open>Index_Level\<close> is at position 13. The exported
  table has the columns \<open>Date\<close> and \<open>Index_Portfolio_Value\<close> and holds, for the row of
  3 February 2020, the portfolio value 41/4, where the index level recorded for that row
  is 100.
\<close>

theorem export_values_eleven_columns:
  "length (columns frame_11) = 11
   \<and> ebind (calc_index_level frame_11 (2020, 1, 1) (2020, 12, 31)) export_values
       = Inr ((''Date'', ''Index_Portfolio_Value''), [((2020, 2, 3), 41 / 4)])
   \<and> iterrows 0 (rows frame_11) init
       = Inr \<lparr>top_1 = 11, top_2 = 10, top_3 = 9, old_tops = (1, 1, 1),
              portfolio_value = [1, 1, 41 / 4], index_level = [1, 1, 100],
              divisor = 41 / 400, old_portfolio_value = 100\<rparr>"
proof -
  have "length (columns frame_11) = 11"
    by (simp add: frame_11_def sample_frame_def)
  moreover have "ebind (calc_index_level frame_11 (2020, 1, 1) (2020, 12, 31)) export_values
       = Inr ((''Date'', ''Index_Portfolio_Value''), [((2020, 2, 3), 41 / 4)])"
    unfolding frame_11_calc by (simp add: export_values_def list_get_def)
  ultimately show ?thesis using frame_11_run by blast
qed

section \<open>The formulas in exact arithmetic\<close>

text \<open>
  Prices, portfolio values and the divisor are reals in this theory, and \<open>fdiv\<close> and
  \<open>calc_portfolio_value\<close> compute without rounding. The two results of this section
  rest on that. They are properties of the formulas of \<open>calc_index_level\<close> when these
  are computed exactly; Python computes them in IEEE-754 doubles, whose quotients and
  products are rounded and can underflow to zero, and the results say nothing of that.
\<close>

subsection \<open>Continuity of the divisor update\<close>

text \<open>
  Computed exactly, the divisor update of a row \<open>i \<ge> 4\<close> keeps the index level: the
  value of the selection over the new divisor is the value of the old selection over the
  old divisor.
\<close>

lemma divisor_continuity_exact:
  assumes "iterrows 0 rs init = Inr sf" and "i < length rs" and "4 \<le> i"
    and "divisor_update_day (rs ! i)"
  shows "\<exists>s s' new old. iterrows 0 (take i rs) init = Inr s \<and> step i (rs ! i) s = Inr s'
           \<and> (top_1 s', top_2 s', top_3 s') = (top_1 s, top_2 s, top_3 s)
           \<and> old_tops s' = old_tops s
           \<and> value_at (rs ! i) (top_1 s', top_2 s', top_3 s') = Inr new
           \<and> value_at (rs ! i) (old_tops s') = Inr old
           \<and> divisor s' = new / old * divisor s
           \<and> new / divisor s' = old / divisor s
           \<and> portfolio_value sf ! i = new
           \<and> index_level sf ! i = old / divisor s"
proof -
  let ?r = "rs ! i"
  from iterrows_split [OF assms(1,2)] obtain s s' where
    pre: "iterrows 0 (take i rs) init = Inr s" and
    st: "step i ?r s = Inr s'" and
    post: "iterrows (Suc i) (drop (Suc i) rs) s' = Inr sf"
    by auto
  from assms(4) have day: "\<not> rebalance_day ?r" "month_start_day ?r"
    by (simp_all add: divisor_update_day_def)
  from st obtain prices pv s2 where
    pr: "row_prices ?r (top_1 s, top_2 s, top_3 s) = Inr prices" and
    pv: "calc_portfolio_value prices = Inr pv" and
    br: "update_divisor i ?r prices (s\<lparr>portfolio_value := portfolio_value s @ [pv]\<rparr>) = Inr s2" and
    nz: "divisor s2 \<noteq> 0" and
    s': "s' = s2\<lparr>index_level := index_level s2 @ [pv / divisor s2]\<rparr>"
    by (elim step_InrE) (simp add: day)
  from update_divisor_Inr [OF br] assms(3) pv obtain opv where
    old: "value_at ?r (old_tops s) = Inr opv" and opv: "opv \<noteq> 0" and
    s2: "s2 = s\<lparr>portfolio_value := portfolio_value s @ [pv],
                old_portfolio_value := opv, divisor := pv / opv * divisor s\<rparr>"
    by auto
  have new: "value_at ?r (top_1 s, top_2 s, top_3 s) = Inr pv"
    using pr pv by (auto simp: value_at_Inr)
  have d: "divisor s' = pv / opv * divisor s"
    by (simp add: s' s2)
  have pvnz: "pv \<noteq> 0" and dnz: "divisor s \<noteq> 0"
    using nz by (auto simp: s2)
  have cont: "pv / divisor s' = opv / divisor s"
    unfolding d using pvnz dnz opv by (simp add: field_simps)
  have rec: "portfolio_value sf ! i = pv \<and> index_level sf ! i = pv / divisor s'"
    using recorded_at [OF pre assms(2) st post] by (simp add: s' s2)
  have sel: "(top_1 s', top_2 s', top_3 s') = (top_1 s, top_2 s, top_3 s)"
    "old_tops s' = old_tops s"
    by (simp_all add: s' s2)
  show ?thesis
    using pre st sel new old d cont rec by (intro exI [of _ s] exI [of _ s'] exI [of _ pv] exI [of _ opv]) simp
qed

subsection \<open>Positive prices\<close>

lemma ebind_eq_Inl: "ebind m f = Inl e \<longleftrightarrow> m = Inl e \<or> (\<exists>x. m = Inr x \<and> f x = Inl e)"
  by (cases m) simp_all

lemma list_get_error: "list_get xs i \<noteq> Inl ZeroDivisionError"
  by (simp add: list_get_def)

lemma list_index_error: "list_index xs v \<noteq> Inl ZeroDivisionError"
  by (induction xs) (auto simp: ebind_eq_Inl)

lemma row_prices_error: "row_prices r sel \<noteq> Inl ZeroDivisionError"
  by (cases sel) (auto simp: row_prices_def row_get_def ebind_eq_Inl list_get_error)

lemma calc_portfolio_value_error: "calc_portfolio_value p \<noteq> Inl ZeroDivisionError"
  by (cases p) (auto simp: calc_portfolio_value_def py_float_def ebind_eq_Inl split: cell.splits)

lemma dt_date_error: "dt_date y m d \<noteq> Inl ZeroDivisionError"
  by (simp add: dt_date_def)

lemma calendar_weekday_error: "calendar_weekday y m d \<noteq> Inl ZeroDivisionError"
  by (auto simp: calendar_weekday_def ebind_eq_Inl dt_date_error Let_def)

lemma last_working_day_error: "last_working_day d \<noteq> Inl ZeroDivisionError"
  by (cases d)
    (auto simp: last_working_day_def month_last_day_def monthrange_def ebind_eq_Inl
      dt_date_error calendar_weekday_error Let_def)

lemma first_working_day_error: "first_working_day d \<noteq> Inl ZeroDivisionError"
  by (cases d)
    (auto simp: first_working_day_def ebind_eq_Inl dt_date_error calendar_weekday_error Let_def)

lemma top3_list_index_error: "top3_list_index vals \<noteq> Inl ZeroDivisionError"
  by (auto simp: top3_list_index_def ebind_eq_Inl list_get_error list_index_error Let_def)

lemma rebalance_error: "rebalance r s \<noteq> Inl ZeroDivisionError"
  by (auto simp: rebalance_def ebind_eq_Inl top3_list_index_error)



lemma row_get_Number:
  assumes "row_get r k = Inr (Number v)"
  shows "v \<in> set (cells r)"
  using assms
  by (auto simp: row_get_def list_get_def ebind_eq_Inr split: if_splits)

lemma py_float_Inr: "py_float c = Inr v \<longleftrightarrow> c = Number v"
  by (cases c) (simp_all add: py_float_def)

lemma calc_portfolio_value_Inr:
  "calc_portfolio_value (x, y, z) = Inr v \<longleftrightarrow>
     (\<exists>a b c. x = Number a \<and> y = Number b \<and> z = Number c
        \<and> v = 0.5 * a + 0.25 * b + 0.25 * c)"
  by (auto simp: calc_portfolio_value_def ebind_eq_Inr py_float_Inr)

lemma value_at_positive:
  assumes "\<forall>x \<in> set (cells r). 0 < x" and "value_at r sel = Inr v"
  shows "0 < v"
proof -
  obtain a b c where sel: "sel = (a, b, c)" by (cases sel)
  from assms(2) obtain x y z where
    g: "row_get r a = Inr (Number x)" "row_get r b = Inr (Number y)"
       "row_get r c = Inr (Number z)" and
    v: "v = 0.5 * x + 0.25 * y + 0.25 * z"
    unfolding sel value_at_def row_prices_def
    by (auto simp: ebind_eq_Inr calc_portfolio_value_Inr)
  have "0 < x" "0 < y" "0 < z"
    using g assms(1) row_get_Number by blast+
  then show ?thesis by (simp add: v add_pos_pos)
qed

lemma value_at_error: "value_at r sel \<noteq> Inl ZeroDivisionError"
  by (simp add: value_at_def ebind_eq_Inl row_prices_error calc_portfolio_value_error)

lemma update_divisor_positive:
  assumes pos: "\<forall>x \<in> set (cells r). 0 < x"
    and inv: "0 < divisor s" "0 < old_portfolio_value s"
    and pr: "row_prices r sel = Inr prices"
  shows "update_divisor index r prices s \<noteq> Inl ZeroDivisionError
       \<and> (\<forall>s2. update_divisor index r prices s = Inr s2 \<longrightarrow>
            0 < divisor s2 \<and> 0 < old_portfolio_value s2)"
proof (cases "calc_portfolio_value prices")
  case (Inl e)
  then have "e \<noteq> ZeroDivisionError" using calc_portfolio_value_error by metis
  then show ?thesis
    using Inl value_at_error [of r "old_tops s"]
    by (auto simp: update_divisor_def ebind_eq_Inl ebind_eq_Inr value_at_def)
next
  case (Inr new)
  have new: "0 < new"
    using value_at_positive [OF pos, of sel new] pr Inr by (simp add: value_at_Inr)
  show ?thesis
  proof (cases "3 < index")
    case True
    show ?thesis
    proof (cases "value_at r (old_tops s)")
      case (Inl e)
      then have "e \<noteq> ZeroDivisionError" using value_at_error by metis
      then show ?thesis
        using Inl True by (simp add: update_divisor_def value_at_def)
    next
      case old: (Inr opv)
      have "0 < opv" using value_at_positive [OF pos old] .
      then show ?thesis
        using old True Inr new inv
        by (simp add: update_divisor_def value_at_def fdiv_def)
    qed
  next
    case False
    then show ?thesis
      using Inr new inv by (simp add: update_divisor_def fdiv_def)
  qed
qed

lemma step_positive:
  assumes pos: "\<forall>x \<in> set (cells r). 0 < x"
    and inv: "0 < divisor s" "0 < old_portfolio_value s"
  shows "step index r s \<noteq> Inl ZeroDivisionError
       \<and> (\<forall>s'. step index r s = Inr s' \<longrightarrow> 0 < divisor s' \<and> 0 < old_portfolio_value s')"
proof (cases "today r")
  case (Inl e)
  have "step index r s \<noteq> Inl ZeroDivisionError"
    using Inl
    by (cases "Date r")
      (auto simp: step_def today_def ebind_eq_Inl row_prices_error
        calc_portfolio_value_error dt_date_error Let_def)
  then show ?thesis using step_today_Inl [OF Inl] by simp
next
  case (Inr d)
  let ?sel = "(top_1 s, top_2 s, top_3 s)"
  show ?thesis
  proof (cases "row_prices r ?sel")
    case (Inl e)
    then show ?thesis
      using row_prices_error [of r ?sel] by (simp add: step_today_Inr [OF Inr])
  next
    case pr: (Inr prices)
    show ?thesis
    proof (cases "calc_portfolio_value prices")
      case (Inl e)
      then show ?thesis
        using calc_portfolio_value_error [of prices] pr by (simp add: step_today_Inr [OF Inr])
    next
      case pv: (Inr pv)
      let ?s1 = "s\<lparr>portfolio_value := portfolio_value s @ [pv]\<rparr>"
      let ?branch = "if rebalance_day r then rebalance r ?s1
                     else if month_start_day r then update_divisor index r prices ?s1
                     else Inr ?s1"
      have inv1: "0 < divisor ?s1" "0 < old_portfolio_value ?s1"
        using inv by simp_all
      have br: "?branch \<noteq> Inl ZeroDivisionError
              \<and> (\<forall>s2. ?branch = Inr s2 \<longrightarrow> 0 < divisor s2 \<and> 0 < old_portfolio_value s2)"
        using update_divisor_positive [OF pos inv1 pr, of index] rebalance_error [of r ?s1] inv1
        by (auto dest!: rebalance_Inr)
      have st: "step index r s =
                  ebind ?branch (\<lambda>s2. ebind (fdiv pv (divisor s2)) (\<lambda>il.
                    Inr (s2\<lparr>index_level := index_level s2 @ [il]\<rparr>)))"
        by (simp add: step_today_Inr [OF Inr] pr pv)
      show ?thesis
      proof (cases ?branch)
        case (Inl e)
        then show ?thesis using br st by simp
      next
        case (Inr s2)
        then have "0 < divisor s2 \<and> 0 < old_portfolio_value s2" using br by simp
        then show ?thesis using st Inr by (simp add: fdiv_def)
      qed
    qed
  qed
qed

lemma iterrows_positive:
  assumes "\<forall>r \<in> set rs. \<forall>x \<in> set (cells r). 0 < x"
    and "0 < divisor s" "0 < old_portfolio_value s"
  shows "iterrows k rs s \<noteq> Inl ZeroDivisionError
       \<and> (\<forall>sf. iterrows k rs s = Inr sf \<longrightarrow> 0 < divisor sf \<and> 0 < old_portfolio_value sf)"
  using assms
proof (induction rs arbitrary: k s)
  case Nil
  then show ?case by simp
next
  case (Cons r rs)
  have pos: "\<forall>x \<in> set (cells r). 0 < x" using Cons.prems(1) by simp
  note sp = step_positive [OF pos Cons.prems(2,3), of k]
  show ?case
  proof (cases "step k r s")
    case (Inl e)
    then show ?thesis using sp by simp
  next
    case (Inr s')
    then have "0 < divisor s'" "0 < old_portfolio_value s'" using sp by simp_all
    from Cons.IH [OF _ this, of "Suc k"] Cons.prems(1) show ?thesis
      using Inr by simp
  qed
qed

text \<open>
  Computed exactly, a series of positive prices keeps the divisor and
  \<open>old_portfolio_value\<close> positive, and no division has a zero divisor.
\<close>

lemma no_zero_division_exact:
  assumes "\<forall>r \<in> set (rows df). \<forall>x \<in> set (cells r). 0 < x"
  shows "iterrows 0 (rows df) init \<noteq> Inl ZeroDivisionError
       \<and> calc_index_level df start_date end_date \<noteq> Inl ZeroDivisionError
       \<and> (\<forall>i s. i \<le> length (rows df) \<and> iterrows 0 (take i (rows df)) init = Inr s \<longrightarrow>
            0 < divisor s \<and> 0 < old_portfolio_value s)
       \<and> (\<forall>r sel v. r \<in> set (rows df) \<and> value_at r sel = Inr v \<longrightarrow> 0 < v)"
proof -
  have i0: "0 < divisor init" "0 < old_portfolio_value init"
    by (simp_all add: init_def)
  have a: "iterrows 0 (rows df) init \<noteq> Inl ZeroDivisionError"
    using iterrows_positive [OF assms i0] by simp
  have b: "calc_index_level df start_date end_date \<noteq> Inl ZeroDivisionError"
    using a
    by (auto simp: calc_index_level_def ebind_eq_Inl set_column_def split: if_splits sum.splits)
  have c: "0 < divisor s \<and> 0 < old_portfolio_value s"
    if "iterrows 0 (take i (rows df)) init = Inr s" for i s
  proof -
    have "\<forall>r \<in> set (take i (rows df)). \<forall>x \<in> set (cells r). 0 < x"
      using assms by (meson in_set_takeD)
    from iterrows_positive [OF this i0, of 0] that show ?thesis by simp
  qed
  have d: "0 < v" if "r \<in> set (rows df)" "value_at r sel = Inr v" for r sel v
    using value_at_positive [of r sel v] assms that by blast
  show ?thesis using a b c d by blast
qed

end
